theory Spec2Isabelle
  imports Complex_Main "HOL-Library.Sublist" "HOL-Library.Multiset"
begin

section \<open>Resume scoring pipeline: a shallow embedding\<close>

text \<open>
  The services of \<^verbatim>\<open>app/services\<close> are embedded function by function.
  Python \<^verbatim>\<open>float\<close> values are modelled as exact reals (weights such as
  \<^verbatim>\<open>0.30\<close> are the fractions they denote), Python \<^verbatim>\<open>int\<close> as \<open>int\<close>,
  dictionaries as maps, exceptions as the left summand of a sum type.
\<close>

subsection \<open>ImpactService.score\_bullet\_impact\<close>

text \<open>
  \<^verbatim>\<open>impact_service.py\<close>, lines 246 to 294. The five keyword arguments are the
  feature flags; the running total is a Python \<^verbatim>\<open>int\<close>.
\<close>

definition score_bullet_impact :: "bool \<Rightarrow> bool \<Rightarrow> bool \<Rightarrow> bool \<Rightarrow> bool \<Rightarrow> int" where
  "score_bullet_impact has_quantification has_strong_verb is_concise is_active_voice has_weak_verb =
     (let score = 0;
          score = (if has_quantification then score + 40 else score);
          score = (if has_strong_verb then score + 30
                   else if \<not> has_weak_verb then score + 10 else score);
          score = (if is_concise then score + 20 else score);
          score = (if is_active_voice then score + 10 else score);
          score = (if has_weak_verb then max 0 (score - 20) else score)
      in min score 100)"

text \<open>
  The scoring formula in the words of the specification (section 4.2): start at 0; +40 if
  quantified; +30 if a strong verb is present, else +10 if no weak phrase is present, else
  +0; +20 if concise; +10 if active voice; subtract 20, floored at 0, if a weak phrase was
  found; the final score clamped to [0,100].
\<close>

definition spec_impact_score :: "bool \<Rightarrow> bool \<Rightarrow> bool \<Rightarrow> bool \<Rightarrow> bool \<Rightarrow> int" where
  "spec_impact_score quantified strong concise active weak =
     (let base = (if quantified then 40 else 0)
               + (if strong then 30 else if \<not> weak then 10 else 0)
               + (if concise then 20 else 0)
               + (if active then 10 else 0);
          penalised = (if weak then max 0 (base - 20) else base)
      in max 0 (min 100 penalised))"

subsection \<open>Python numerics and errors\<close>

datatype py_error = KeyError | ValueError | CollaboratorError

text \<open>
  \<^verbatim>\<open>round(x)\<close> rounds to the nearest integer, a tie going to the even neighbour;
  \<^verbatim>\<open>round(x, n)\<close> does the same at the n-th decimal.
\<close>

definition py_round :: "real \<Rightarrow> int" where
  "py_round x =
     (let f = \<lfloor>x\<rfloor>; d = x - of_int f
      in if d < 1 / 2 then f
         else if 1 / 2 < d then f + 1
         else if even f then f else f + 1)"

definition py_round_ndigits :: "real \<Rightarrow> nat \<Rightarrow> real" where
  "py_round_ndigits x n = of_int (py_round (x * 10 ^ n)) / 10 ^ n"

subsection \<open>ScoringService.calculate\_final\_score\<close>












subsection \<open>Python strings\<close>

text \<open>
  Keywords and bullets are Python \<^verbatim>\<open>str\<close> values over the code points below 256: a
  \<open>char\<close> is its code point. On this range \<^verbatim>\<open>str.lower\<close> maps A to Z and the
  capital letters 192 to 222 (except the multiplication sign 215) 32 places up and
  leaves every other character alone. \<^verbatim>\<open>a in b\<close> is the substring test.
\<close>

definition py_lower_char :: "char \<Rightarrow> char" where
  "py_lower_char c =
     (let n = (of_char c :: nat)
      in if (65 \<le> n \<and> n \<le> 90) \<or> (192 \<le> n \<and> n \<le> 222 \<and> n \<noteq> 215)
         then char_of (n + 32) else c)"

definition py_lower :: "string \<Rightarrow> string" where
  "py_lower s = map py_lower_char s"

fun py_in :: "string \<Rightarrow> string \<Rightarrow> bool" where
  "py_in sub [] = (sub = [])"
| "py_in sub (c # cs) = (if prefix sub (c # cs) then True else py_in sub cs)"

subsection \<open>KeywordService.categorize\_keywords\<close>

text \<open>
  \<^verbatim>\<open>keyword_service.py\<close>, lines 18 to 52 and 169 to 215. The four reference sets of
  \<^verbatim>\<open>__init__\<close> are listed as written in the source; \<^verbatim>\<open>any\<close> over a set does
  not depend on the order of its elements.
\<close>

definition self_technical_skills :: "string list" where
  "self_technical_skills =
     [''python'', ''java'', ''javascript'', ''typescript'', ''c++'', ''c#'', ''ruby'', ''go'',
      ''rust'', ''php'', ''swift'', ''kotlin'', ''scala'', ''r'', ''matlab'', ''sql'', ''nosql'',
      ''html'', ''css'', ''react'', ''angular'', ''vue'', ''node'', ''django'', ''flask'',
      ''spring'', ''express'', ''tensorflow'', ''pytorch'', ''keras'', ''scikit-learn'',
      ''pandas'', ''numpy'', ''machine learning'', ''deep learning'', ''ai'',
      ''artificial intelligence'', ''data science'', ''nlp'', ''computer vision'',
      ''neural networks'']"

definition self_soft_skills :: "string list" where
  "self_soft_skills =
     [''leadership'', ''communication'', ''teamwork'', ''collaboration'', ''problem-solving'',
      ''critical thinking'', ''analytical'', ''creative'', ''adaptable'', ''flexible'',
      ''time management'', ''organizational'', ''detail-oriented'', ''self-motivated'',
      ''initiative'', ''presentation'', ''interpersonal'', ''mentoring'', ''coaching'']"

definition self_tools :: "string list" where
  "self_tools =
     [''git'', ''github'', ''gitlab'', ''bitbucket'', ''jira'', ''confluence'', ''slack'',
      ''docker'', ''kubernetes'', ''jenkins'', ''circleci'', ''travis'', ''terraform'',
      ''ansible'', ''puppet'', ''chef'', ''aws'', ''azure'', ''gcp'', ''heroku'', ''vercel'',
      ''linux'', ''unix'', ''windows'', ''macos'', ''bash'', ''powershell'',
      ''vscode'', ''intellij'', ''eclipse'', ''pycharm'', ''jupyter'']"

definition self_certifications :: "string list" where
  "self_certifications =
     [''aws certified'', ''azure certified'', ''gcp certified'', ''pmp'', ''scrum master'',
      ''cissp'', ''comptia'', ''ceh'', ''cisa'', ''cism'', ''itil'', ''ccna'', ''ccnp'',
      ''certified kubernetes'', ''tableau certified'', [], ''cfa'', ''six sigma'']"

record categorized =
  technical_skills :: "string list"
  soft_skills :: "string list"
  tools :: "string list"
  certifications :: "string list"
  domain_terms :: "string list"

definition any_in :: "string list \<Rightarrow> string \<Rightarrow> bool" where
  "any_in entries keyword_lower = list_ex (\<lambda>entry. py_in entry keyword_lower) entries"

text \<open>One pass of the loop body, for one keyword.\<close>

definition categorize_keyword :: "string \<Rightarrow> categorized \<Rightarrow> categorized" where
  "categorize_keyword keyword cat =
     (let keyword_lower = py_lower keyword;
          categorized_flag = False;
          (cat, categorized_flag) =
            (if any_in self_technical_skills keyword_lower
             then (cat\<lparr>technical_skills := technical_skills cat @ [keyword]\<rparr>, True)
             else (cat, categorized_flag));
          (cat, categorized_flag) =
            (if any_in self_soft_skills keyword_lower
             then (cat\<lparr>soft_skills := soft_skills cat @ [keyword]\<rparr>, True)
             else (cat, categorized_flag));
          (cat, categorized_flag) =
            (if any_in self_tools keyword_lower
             then (cat\<lparr>tools := tools cat @ [keyword]\<rparr>, True)
             else (cat, categorized_flag));
          (cat, categorized_flag) =
            (if any_in self_certifications keyword_lower
             then (cat\<lparr>certifications := certifications cat @ [keyword]\<rparr>, True)
             else (cat, categorized_flag))
      in if \<not> categorized_flag
         then cat\<lparr>domain_terms := domain_terms cat @ [keyword]\<rparr>
         else cat)"

fun categorize_loop :: "string list \<Rightarrow> categorized \<Rightarrow> categorized" where
  "categorize_loop [] cat = cat"
| "categorize_loop (keyword # rest) cat = categorize_loop rest (categorize_keyword keyword cat)"

definition categorize_keywords :: "string list \<Rightarrow> categorized" where
  "categorize_keywords keywords =
     categorize_loop keywords
       \<lparr>technical_skills = [], soft_skills = [], tools = [], certifications = [],
        domain_terms = []\<rparr>"

subsection \<open>ImpactService.get\_weakest\_bullets\<close>

text \<open>
  \<^verbatim>\<open>impact_service.py\<close>, lines 296 to 310. An analysed bullet is the dictionary that
  \<^verbatim>\<open>analyze_bullet_impact\<close> builds (the \<^verbatim>\<open>BulletAnalysis\<close> of
  \<^verbatim>\<open>schemas.py\<close>); its key \<^verbatim>\<open>text\<close> is the field \<open>bullet_text\<close>.
  \<^verbatim>\<open>sorted\<close> with a key is a stable ascending sort, as \<open>sort_key\<close> is;
  \<^verbatim>\<open>xs[:count]\<close> with a negative count drops that many elements from the end;
  the parameter \<^verbatim>\<open>count\<close> is \<open>cnt\<close> here.
\<close>

record bullet_analysis =
  bullet_text :: string
  impact_score :: int
  has_quantification :: bool
  weaknesses :: "string list"
  strengths :: "string list"




subsection \<open>ProjectionService.project\_improved\_score\<close>

text \<open>
  \<^verbatim>\<open>projection_service.py\<close>, lines 15 to 173. A rewrite is the dictionary that
  \<^verbatim>\<open>rewrite_service.py\<close> builds (the \<^verbatim>\<open>BulletRewrite\<close> of
  \<^verbatim>\<open>schemas.py\<close>), so every key is present. The private helpers carry their
  Python names without the leading underscore.
\<close>

record rewrite =
  original :: string
  rewritten :: string
  improvement_score :: int
  keywords_added :: "string list"











subsection \<open>EmbeddingService: cosine similarity and the semantic score\<close>

text \<open>
  \<^verbatim>\<open>embedding_service.py\<close>, lines 26 to 115. Vectors are lists of reals.
  \<^verbatim>\<open>np.dot\<close> raises on vectors of different lengths;
  \<^verbatim>\<open>np.linalg.norm\<close> is the Euclidean norm.
\<close>

definition np_dot :: "real list \<Rightarrow> real list \<Rightarrow> py_error + real" where
  "np_dot v1 v2 =
     (if length v1 \<noteq> length v2 then Inl ValueError
      else Inr (sum_list (map2 (*) v1 v2)))"

definition np_linalg_norm :: "real list \<Rightarrow> real" where
  "np_linalg_norm v = sqrt (sum_list (map (\<lambda>x. x * x) v))"

definition cosine_similarity :: "real list \<Rightarrow> real list \<Rightarrow> py_error + real" where
  "cosine_similarity vec1 vec2 =
     (case np_dot vec1 vec2 of
        Inl e \<Rightarrow> Inl e
      | Inr dot_product \<Rightarrow>
          (let norm_v1 = np_linalg_norm vec1;
               norm_v2 = np_linalg_norm vec2
           in if norm_v1 = 0 \<or> norm_v2 = 0 then Inr 0
              else Inr (dot_product / (norm_v1 * norm_v2))))"

text \<open>
  The embedding collaborator \<^verbatim>\<open>genai.embed_content\<close> is a parameter: the outcome
  of its n-th call on a text, a vector or a failure. \<^verbatim>\<open>get_embedding\<close> truncates
  the text to 10000 characters and, under its retry decorator, makes up to three
  attempts; after the third failure the decorator raises.
\<close>

type_synonym embed_content = "nat \<Rightarrow> string \<Rightarrow> py_error + real list"

fun retry_attempts :: "nat \<Rightarrow> nat \<Rightarrow> embed_content \<Rightarrow> string \<Rightarrow> py_error + real list" where
  "retry_attempts 0 attempt embed_fn text = Inl CollaboratorError"
| "retry_attempts (Suc remaining) attempt embed_fn text =
     (case embed_fn attempt (take 10000 text) of
        Inr embedding \<Rightarrow> Inr embedding
      | Inl e \<Rightarrow> retry_attempts remaining (Suc attempt) embed_fn text)"

definition get_embedding :: "embed_content \<Rightarrow> string \<Rightarrow> py_error + real list" where
  "get_embedding embed_fn text = retry_attempts 3 0 embed_fn text"

text \<open>The body of the \<^verbatim>\<open>try\<close> block, and the function with its handler.\<close>

definition semantic_similarity_body :: "embed_content \<Rightarrow> string \<Rightarrow> string \<Rightarrow> py_error + real" where
  "semantic_similarity_body embed_fn resume job_description =
     (case get_embedding embed_fn resume of
        Inl e \<Rightarrow> Inl e
      | Inr resume_embedding \<Rightarrow>
          (case get_embedding embed_fn job_description of
             Inl e \<Rightarrow> Inl e
           | Inr jd_embedding \<Rightarrow>
               (case cosine_similarity resume_embedding jd_embedding of
                  Inl e \<Rightarrow> Inl e
                | Inr similarity \<Rightarrow>
                    (let score = ((similarity + 1) / 2) * 100
                     in Inr (py_round_ndigits score 2)))))"

definition compute_semantic_similarity :: "embed_content \<Rightarrow> string \<Rightarrow> string \<Rightarrow> py_error + real" where
  "compute_semantic_similarity embed_fn resume job_description =
     (case semantic_similarity_body embed_fn resume job_description of
        Inr score \<Rightarrow> Inr score
      | Inl e \<Rightarrow> Inr 50)"

subsection \<open>Regular expressions of the impact service\<close>

text \<open>
  The patterns of \<^verbatim>\<open>detect_quantification\<close> are built from literals, alternations of
  literals, \<^verbatim>\<open>\d+\<close>, \<^verbatim>\<open>\s*\<close>, \<^verbatim>\<open>\s+\<close> and \<^verbatim>\<open>\b\<close>. On code
  points below 256, \<^verbatim>\<open>\d\<close> is 0 to 9, \<^verbatim>\<open>\s\<close> is the Unicode white space of
  that range and \<^verbatim>\<open>\w\<close> is the alphanumeric characters and the underscore; under
  \<^verbatim>\<open>re.IGNORECASE\<close> a literal matches a text whose lowercasing equals its own.
\<close>

definition is_digit :: "char \<Rightarrow> bool" where
  "is_digit c = (let n = (of_char c :: nat) in 48 \<le> n \<and> n \<le> 57)"

definition is_space :: "char \<Rightarrow> bool" where
  "is_space c =
     (let n = (of_char c :: nat)
      in (9 \<le> n \<and> n \<le> 13) \<or> (28 \<le> n \<and> n \<le> 32) \<or> n = 133 \<or> n = 160)"

definition is_word :: "char \<Rightarrow> bool" where
  "is_word c =
     (let n = (of_char c :: nat)
      in (48 \<le> n \<and> n \<le> 57) \<or> (65 \<le> n \<and> n \<le> 90) \<or> n = 95 \<or> (97 \<le> n \<and> n \<le> 122)
         \<or> n = 170 \<or> n = 178 \<or> n = 179 \<or> n = 181 \<or> n = 185 \<or> n = 186
         \<or> (188 \<le> n \<and> n \<le> 190) \<or> (192 \<le> n \<and> n \<le> 214) \<or> (216 \<le> n \<and> n \<le> 246)
         \<or> (248 \<le> n \<and> n \<le> 255))"

datatype cclass = Digit | Space

fun in_class :: "cclass \<Rightarrow> char \<Rightarrow> bool" where
  "in_class Digit c = is_digit c"
| "in_class Space c = is_space c"

datatype rx =
    Lit string
  | OneOf "string list"
  | Plus cclass
  | Star cclass
  | Cat rx rx
  | WordB

text \<open>
  \<^verbatim>\<open>\b\<close> holds at position i when exactly one of the characters before and after
  the position is a word character (the ends of the text count as non-word).
\<close>

definition word_boundary :: "string \<Rightarrow> nat \<Rightarrow> bool" where
  "word_boundary s i =
     ((0 < i \<and> i \<le> length s \<and> is_word (s ! (i - 1))) \<noteq> (i < length s \<and> is_word (s ! i)))"

definition lit_ends :: "string \<Rightarrow> string \<Rightarrow> nat \<Rightarrow> nat list" where
  "lit_ends w s i =
     (if py_lower (take (length w) (drop i s)) = py_lower w then [i + length w] else [])"

definition class_run :: "cclass \<Rightarrow> string \<Rightarrow> nat \<Rightarrow> nat" where
  "class_run c s i = length (takeWhile (in_class c) (drop i s))"

text \<open>
  All positions at which a match of the expression that starts at position i can end.
  A search succeeds when some start position has a match.
\<close>

fun rx_ends :: "rx \<Rightarrow> string \<Rightarrow> nat \<Rightarrow> nat list" where
  "rx_ends (Lit w) s i = lit_ends w s i"
| "rx_ends (OneOf ws) s i = concat (map (\<lambda>w. lit_ends w s i) ws)"
| "rx_ends (Plus c) s i = map (\<lambda>k. i + k) [1 ..< Suc (class_run c s i)]"
| "rx_ends (Star c) s i = map (\<lambda>k. i + k) [0 ..< Suc (class_run c s i)]"
| "rx_ends (Cat r1 r2) s i = concat (map (rx_ends r2 s) (rx_ends r1 s i))"
| "rx_ends WordB s i = (if word_boundary s i then [i] else [])"

definition re_search :: "rx \<Rightarrow> string \<Rightarrow> bool" where
  "re_search r s = list_ex (\<lambda>i. rx_ends r s i \<noteq> []) [0 ..< Suc (length s)]"

text \<open>
  What it means for an expression to match the text between two positions, stated as
  rules; the matcher above is proved to compute exactly these matches.
\<close>

inductive rx_matches :: "rx \<Rightarrow> string \<Rightarrow> nat \<Rightarrow> nat \<Rightarrow> bool" where
  match_Lit: "i + length w \<le> length s
     \<Longrightarrow> py_lower (take (length w) (drop i s)) = py_lower w
     \<Longrightarrow> rx_matches (Lit w) s i (i + length w)"
| match_OneOf: "w \<in> set ws \<Longrightarrow> rx_matches (Lit w) s i j \<Longrightarrow> rx_matches (OneOf ws) s i j"
| match_Plus: "i < j \<Longrightarrow> j \<le> length s \<Longrightarrow> (\<forall>k. i \<le> k \<and> k < j \<longrightarrow> in_class c (s ! k))
     \<Longrightarrow> rx_matches (Plus c) s i j"
| match_Star: "i \<le> j \<Longrightarrow> j \<le> length s \<Longrightarrow> (\<forall>k. i \<le> k \<and> k < j \<longrightarrow> in_class c (s ! k))
     \<Longrightarrow> rx_matches (Star c) s i j"
| match_Cat: "rx_matches r1 s i k \<Longrightarrow> rx_matches r2 s k j \<Longrightarrow> rx_matches (Cat r1 r2) s i j"
| match_WordB: "word_boundary s i \<Longrightarrow> rx_matches WordB s i i"

subsection \<open>ImpactService.detect\_quantification\<close>

text \<open>\<^verbatim>\<open>impact_service.py\<close>, lines 140 to 167: the nine patterns, in order.\<close>

definition patterns :: "rx list" where
  "patterns =
     [Cat (Plus Digit) (Lit ''%''),
      Cat (Lit ''$'') (Plus Digit),
      Cat (Plus Digit) (Cat (Star Space)
        (Cat (OneOf [''million'', ''thousand'', ''billion'', ''k'', ''m'', ''b'']) WordB)),
      Cat (Plus Digit) (Lit ''+''),
      Cat (Plus Digit) (Lit ''x''),
      Cat (Plus Digit) (Cat (Star Space) (OneOf [''percent'', ''percentage''])),
      Cat WordB (Cat (Plus Digit) (Cat (Star Space)
        (Cat (OneOf [''users'', ''customers'', ''clients'', ''projects'', ''people'',
                     ''team members'', ''employees'']) WordB))),
      Cat (Plus Digit) (Cat (Star Space)
        (OneOf [''hours'', ''days'', ''weeks'', ''months'', ''years''])),
      Cat (OneOf [''increased'', ''reduced'', ''improved'', ''decreased'', ''grew''])
        (Cat (Plus Space) (Cat (Lit ''by'') (Cat (Plus Space) (Plus Digit))))]"

text \<open>The loop returns at the first pattern that is found.\<close>

fun search_loop :: "rx list \<Rightarrow> string \<Rightarrow> bool" where
  "search_loop [] bullet = False"
| "search_loop (pattern # rest) bullet =
     (if re_search pattern bullet then True else search_loop rest bullet)"

definition detect_quantification :: "string \<Rightarrow> bool" where
  "detect_quantification bullet = search_loop patterns bullet"

subsection \<open>Text normalisation: PreprocessService.clean\_text\<close>

text \<open>
  \<^verbatim>\<open>preprocess_service.py\<close>, lines 24 to 44, and \<^verbatim>\<open>text_utils.py\<close>, lines 10 to
  24 and 51 to 76. The text is an arbitrary Python \<^verbatim>\<open>str\<close>: a list of code points.
  \<^verbatim>\<open>\s\<close> and \<^verbatim>\<open>str.strip\<close> use the same Unicode white space.
\<close>

type_synonym ustr = "nat list"

definition is_whitespace :: "nat \<Rightarrow> bool" where
  "is_whitespace n =
     ((9 \<le> n \<and> n \<le> 13) \<or> (28 \<le> n \<and> n \<le> 32) \<or> n = 133 \<or> n = 160 \<or> n = 5760
      \<or> (8192 \<le> n \<and> n \<le> 8202) \<or> n = 8232 \<or> n = 8233 \<or> n = 8239 \<or> n = 8287
      \<or> n = 12288)"

text \<open>\<^verbatim>\<open>text.replace(old, new)\<close> for two single characters.\<close>

definition str_replace :: "nat \<Rightarrow> nat \<Rightarrow> ustr \<Rightarrow> ustr" where
  "str_replace old new text = map (\<lambda>c. if c = old then new else c) text"

text \<open>
  The replacement table, in the order of the dictionary literal: en dash, em dash, the
  single and double quotes, the bullet (replaced by itself) and the non-breaking space.
\<close>

definition replacements :: "(nat \<times> nat) list" where
  "replacements =
     [(8211, 45), (8212, 45), (8216, 39), (8217, 39), (8220, 34), (8221, 34),
      (8226, 8226), (160, 32)]"

fun replace_loop :: "(nat \<times> nat) list \<Rightarrow> ustr \<Rightarrow> ustr" where
  "replace_loop [] text = text"
| "replace_loop ((unicode_char, ascii_char) # rest) text =
     replace_loop rest (str_replace unicode_char ascii_char text)"

definition normalize_unicode :: "ustr \<Rightarrow> ustr" where
  "normalize_unicode text = replace_loop replacements text"

text \<open>
  \<^verbatim>\<open>re.sub(r'\s+', ' ', text)\<close>: every maximal run of white space becomes one space.
\<close>

function sub_whitespace_runs :: "ustr \<Rightarrow> ustr" where
  "sub_whitespace_runs [] = []"
| "sub_whitespace_runs (c # cs) =
     (if is_whitespace c then 32 # sub_whitespace_runs (dropWhile is_whitespace cs)
      else c # sub_whitespace_runs cs)"
  by pat_completeness auto
termination
  by (relation "measure length") (auto simp: le_imp_less_Suc length_dropWhile_le)

definition py_strip :: "ustr \<Rightarrow> ustr" where
  "py_strip text = rev (dropWhile is_whitespace (rev (dropWhile is_whitespace text)))"

definition clean_whitespace :: "ustr \<Rightarrow> ustr" where
  "clean_whitespace text = py_strip (sub_whitespace_runs text)"

text \<open>
  \<^verbatim>\<open>re.sub(r'\n{3,}', '\n\n', text)\<close>: a maximal run of three or more newlines
  becomes two newlines; shorter runs stay.
\<close>

function sub_newline_runs :: "ustr \<Rightarrow> ustr" where
  "sub_newline_runs [] = []"
| "sub_newline_runs (c # cs) =
     (if c = 10
      then (let run = c # takeWhile (\<lambda>d. d = 10) cs
            in (if 3 \<le> length run then [10, 10] else run)
               @ sub_newline_runs (dropWhile (\<lambda>d. d = 10) cs))
      else c # sub_newline_runs cs)"
  by pat_completeness auto
termination
  by (relation "measure length") (auto simp: le_imp_less_Suc length_dropWhile_le)

definition clean_text :: "ustr \<Rightarrow> ustr" where
  "clean_text text =
     (let text = normalize_unicode text;
          text = clean_whitespace text;
          text = sub_newline_runs text
      in text)"

text \<open>
  The effect of the whole replacement table on one character; used to reason about
  \<open>normalize_unicode\<close>.
\<close>

definition normalize_char :: "nat \<Rightarrow> nat" where
  "normalize_char c =
     (if c = 8211 \<or> c = 8212 then 45 else if c = 8216 \<or> c = 8217 then 39
      else if c = 8220 \<or> c = 8221 then 34 else if c = 160 then 32 else c)"

section \<open>Theorems\<close>

subsection \<open>Rounding\<close>

lemma py_round_near: "\<bar>real_of_int (py_round x) - x\<bar> \<le> 1 / 2"
  unfolding py_round_def Let_def by (auto; linarith)


subsection \<open>The aggregation loop\<close>









text \<open>
  C2. For every combination of the five boolean features the code's score equals the
  specification's formula (additions of 40, 30 or 10, 20, 10, a penalty of 20 floored at 0
  for a weak phrase, clamped to [0,100]); the fully positive vector scores at least 80 and
  the vector with only the weak phrase set scores at most 30.
\<close>

theorem score_bullet_impact_formula:
  "score_bullet_impact q s c a w = spec_impact_score q s c a w
   \<and> 0 \<le> score_bullet_impact q s c a w \<and> score_bullet_impact q s c a w \<le> 100
   \<and> 80 \<le> score_bullet_impact True True True True False
   \<and> score_bullet_impact False False False False True \<le> 30"
  by (cases q; cases s; cases c; cases a; cases w)
     (simp_all add: score_bullet_impact_def spec_impact_score_def Let_def)

subsection \<open>Keyword categorisation\<close>

lemma py_in_sublist: "py_in sub s = sublist sub s"
  by (induction s) (auto simp: sublist_Cons_right)

lemma py_in_iff: "py_in sub s \<longleftrightarrow> (\<exists>p q. s = p @ sub @ q)"
  by (simp add: py_in_sublist sublist_def)

lemma py_in_empty: "py_in [] s"
  by (simp add: py_in_sublist)

lemma any_in_iff: "any_in entries kl \<longleftrightarrow> (\<exists>e \<in> set entries. \<exists>p q. kl = p @ e @ q)"
  by (simp add: any_in_def list_ex_iff py_in_iff)

lemma any_in_certifications: "any_in self_certifications k"
  by (simp add: any_in_def self_certifications_def py_in_empty)

lemma categorize_keyword_fields:
  "technical_skills (categorize_keyword k cat) =
     technical_skills cat @ (if any_in self_technical_skills (py_lower k) then [k] else [])"
  "soft_skills (categorize_keyword k cat) =
     soft_skills cat @ (if any_in self_soft_skills (py_lower k) then [k] else [])"
  "tools (categorize_keyword k cat) =
     tools cat @ (if any_in self_tools (py_lower k) then [k] else [])"
  "certifications (categorize_keyword k cat) =
     certifications cat @ (if any_in self_certifications (py_lower k) then [k] else [])"
  "domain_terms (categorize_keyword k cat) =
     domain_terms cat @
       (if any_in self_technical_skills (py_lower k) \<or> any_in self_soft_skills (py_lower k)
           \<or> any_in self_tools (py_lower k) \<or> any_in self_certifications (py_lower k)
        then [] else [k])"
  by (simp_all add: categorize_keyword_def Let_def)

lemma categorize_loop_fields:
  "technical_skills (categorize_loop ks cat) =
     technical_skills cat @ filter (\<lambda>k. any_in self_technical_skills (py_lower k)) ks"
  "soft_skills (categorize_loop ks cat) =
     soft_skills cat @ filter (\<lambda>k. any_in self_soft_skills (py_lower k)) ks"
  "tools (categorize_loop ks cat) =
     tools cat @ filter (\<lambda>k. any_in self_tools (py_lower k)) ks"
  "certifications (categorize_loop ks cat) =
     certifications cat @ filter (\<lambda>k. any_in self_certifications (py_lower k)) ks"
  "domain_terms (categorize_loop ks cat) =
     domain_terms cat @
       filter (\<lambda>k. \<not> (any_in self_technical_skills (py_lower k)
                    \<or> any_in self_soft_skills (py_lower k)
                    \<or> any_in self_tools (py_lower k)
                    \<or> any_in self_certifications (py_lower k))) ks"
  by (induction ks arbitrary: cat; simp add: categorize_keyword_fields)+

text \<open>
  C4, as stated, fails at the single-keyword list [blockchain]: the keyword is not placed
  in \<open>domain_terms\<close>.
\<close>

theorem categorize_blockchain_not_domain:
  "''blockchain'' \<notin> set (domain_terms (categorize_keywords [''blockchain'']))"
  by code_simp

text \<open>
  C4, amended. For every keyword list, each of the four lexicon categories receives, in
  input order, exactly the keywords whose lowercased form has an entry of that
  category's reference set as a substring (a keyword may land in several categories), and
  \<open>domain_terms\<close> receives exactly the keywords that none of the four reference sets
  matched. The entries are all lowercase, so the test ignores the case of the keyword.
  The keyword blockchain contains the technical-skill entry ai, so it is tagged
  \<open>technical_skills\<close>.
\<close>

theorem categorize_keywords_by_substring:
  "technical_skills (categorize_keywords kws)
     = filter (\<lambda>k. any_in self_technical_skills (py_lower k)) kws
   \<and> soft_skills (categorize_keywords kws)
     = filter (\<lambda>k. any_in self_soft_skills (py_lower k)) kws
   \<and> tools (categorize_keywords kws)
     = filter (\<lambda>k. any_in self_tools (py_lower k)) kws
   \<and> certifications (categorize_keywords kws)
     = filter (\<lambda>k. any_in self_certifications (py_lower k)) kws
   \<and> domain_terms (categorize_keywords kws)
     = filter (\<lambda>k. \<not> (any_in self_technical_skills (py_lower k)
                      \<or> any_in self_soft_skills (py_lower k)
                      \<or> any_in self_tools (py_lower k)
                      \<or> any_in self_certifications (py_lower k))) kws
   \<and> any_in entries kl = (\<exists>e \<in> set entries. \<exists>p q. kl = p @ e @ q)
   \<and> map py_lower self_technical_skills = self_technical_skills
   \<and> map py_lower self_soft_skills = self_soft_skills
   \<and> map py_lower self_tools = self_tools
   \<and> map py_lower self_certifications = self_certifications
   \<and> ''ai'' \<in> set self_technical_skills
   \<and> py_lower ''blockchain'' = ''blockch'' @ ''ai'' @ ''n''
   \<and> technical_skills (categorize_keywords [''blockchain'']) = [''blockchain'']"
proof -
  have lower:
    "map py_lower self_technical_skills = self_technical_skills"
    "map py_lower self_soft_skills = self_soft_skills"
    "map py_lower self_tools = self_tools"
    "map py_lower self_certifications = self_certifications"
    by code_simp+
  have ai: "''ai'' \<in> set self_technical_skills"
    by (simp add: self_technical_skills_def)
  have low: "py_lower ''blockchain'' = ''blockch'' @ ''ai'' @ ''n''"
    by code_simp
  have tagged: "technical_skills (categorize_keywords [''blockchain'']) = [''blockchain'']"
    by code_simp
  have fields:
    "technical_skills (categorize_keywords kws)
       = filter (\<lambda>k. any_in self_technical_skills (py_lower k)) kws"
    "soft_skills (categorize_keywords kws)
       = filter (\<lambda>k. any_in self_soft_skills (py_lower k)) kws"
    "tools (categorize_keywords kws)
       = filter (\<lambda>k. any_in self_tools (py_lower k)) kws"
    "certifications (categorize_keywords kws)
       = filter (\<lambda>k. any_in self_certifications (py_lower k)) kws"
    "domain_terms (categorize_keywords kws)
       = filter (\<lambda>k. \<not> (any_in self_technical_skills (py_lower k)
                      \<or> any_in self_soft_skills (py_lower k)
                      \<or> any_in self_tools (py_lower k)
                      \<or> any_in self_certifications (py_lower k))) kws"
    by (simp_all add: categorize_keywords_def categorize_loop_fields)
  from fields lower ai low tagged any_in_iff [of entries kl] show ?thesis
    by blast
qed

text \<open>
  C9. The certifications reference set contains the empty string, which is a substring of
  every keyword; so every keyword of every list is tagged into \<open>certifications\<close> and
  \<open>domain_terms\<close> is returned empty.
\<close>

theorem categorize_keywords_domain_terms_empty:
  "[] \<in> set self_certifications
   \<and> py_in [] (py_lower k)
   \<and> certifications (categorize_keywords kws) = kws
   \<and> domain_terms (categorize_keywords kws) = []"
proof -
  have member: "[] \<in> set self_certifications"
    by (simp add: self_certifications_def)
  have all_tagged: "certifications (categorize_keywords kws) = kws"
    by (simp add: categorize_keywords_def categorize_loop_fields any_in_certifications)
  have none_left: "domain_terms (categorize_keywords kws) = []"
    by (simp add: categorize_keywords_def categorize_loop_fields any_in_certifications)
  from member all_tagged none_left show ?thesis
    by (simp add: py_in_empty)
qed

subsection \<open>Weakest bullets\<close>



subsection \<open>Score projection\<close>

lemma py_round_between:
  assumes "real_of_int a \<le> x" and "x \<le> real_of_int b"
  shows "a \<le> py_round x \<and> py_round x \<le> b"
proof -
  have near: "\<bar>real_of_int (py_round x) - x\<bar> \<le> 1 / 2"
    by (rule py_round_near)
  have "real_of_int a - 1 < real_of_int (py_round x)"
    using near assms by linarith
  then have "real_of_int (a - 1) < real_of_int (py_round x)"
    by simp
  then have lo: "a - 1 < py_round x"
    by (simp only: of_int_less_iff)
  have "real_of_int (py_round x) < real_of_int b + 1"
    using near assms by linarith
  then have "real_of_int (py_round x) < real_of_int (b + 1)"
    by simp
  then have hi: "py_round x < b + 1"
    by (simp only: of_int_less_iff)
  from lo hi show ?thesis by simp
qed






subsection \<open>Semantic similarity\<close>

lemma rescale_bounds:
  assumes "- 1 \<le> s" and "s \<le> 1"
  shows "0 \<le> py_round_ndigits (((s + 1) / 2) * 100) 2
       \<and> py_round_ndigits (((s + 1) / 2) * 100) 2 \<le> 100"
proof -
  let ?x = "((s + 1) / 2) * 100 * 10 ^ 2"
  have "real_of_int 0 \<le> ?x" and "?x \<le> real_of_int 10000"
    using assms by simp_all
  then have "0 \<le> py_round ?x \<and> py_round ?x \<le> 10000"
    by (rule py_round_between)
  then have "0 \<le> real_of_int (py_round ?x) \<and> real_of_int (py_round ?x) \<le> 10000"
    by simp
  then show ?thesis
    by (simp add: py_round_ndigits_def)
qed




lemma sqrt_25: "sqrt 25 = 5"
  by (rule real_sqrt_unique) simp_all

lemma retry_all_fail:
  "(\<forall>n < k. \<exists>err. ef (a + n) (take 10000 t) = Inl err)
     \<Longrightarrow> retry_attempts k a ef t = Inl CollaboratorError"
proof (induction k arbitrary: a)
  case 0
  then show ?case by simp
next
  case (Suc k)
  from Suc.prems [rule_format, of 0] obtain err where first: "ef a (take 10000 t) = Inl err"
    by auto
  have "\<forall>n < k. \<exists>err. ef (Suc a + n) (take 10000 t) = Inl err"
  proof (intro allI impI)
    fix n assume "n < k"
    then have "Suc n < Suc k" by simp
    from Suc.prems [rule_format, OF this] show "\<exists>err. ef (Suc a + n) (take 10000 t) = Inl err"
      by simp
  qed
  from Suc.IH [OF this] first show ?case by simp
qed

text \<open>
  C7. The call always returns a score. When both embeddings arrive and their cosine
  similarity is s, the score is ((s + 1) / 2) * 100 rounded to two decimals, which lies in
  [0,100] for s in [-1,1]. When the embedding of either text fails, which is what three
  failed attempts of the collaborator amount to, or the similarity computation raises,
  the score is the neutral 50 and no failure leaves the function.
\<close>

theorem compute_semantic_similarity_degrades:
  "(\<exists>score. compute_semantic_similarity ef resume jd = Inr score)
   \<and> (get_embedding ef resume = Inr v1 \<and> get_embedding ef jd = Inr v2
        \<and> cosine_similarity v1 v2 = Inr s
      \<longrightarrow> compute_semantic_similarity ef resume jd
            = Inr (py_round_ndigits (((s + 1) / 2) * 100) 2))
   \<and> (- 1 \<le> s \<and> s \<le> 1
      \<longrightarrow> 0 \<le> py_round_ndigits (((s + 1) / 2) * 100) 2
          \<and> py_round_ndigits (((s + 1) / 2) * 100) 2 \<le> 100)
   \<and> (get_embedding ef resume = Inl err \<or> get_embedding ef jd = Inl err
      \<longrightarrow> compute_semantic_similarity ef resume jd = Inr 50)
   \<and> (get_embedding ef resume = Inr v1 \<and> get_embedding ef jd = Inr v2
        \<and> cosine_similarity v1 v2 = Inl err
      \<longrightarrow> compute_semantic_similarity ef resume jd = Inr 50)
   \<and> ((\<forall>n < 3. \<exists>e. ef n (take 10000 resume) = Inl e)
      \<longrightarrow> get_embedding ef resume = Inl CollaboratorError)"
proof -
  have returns: "\<exists>score. compute_semantic_similarity ef resume jd = Inr score"
    by (simp add: compute_semantic_similarity_def split: sum.split)
  have ok: "get_embedding ef resume = Inr v1 \<and> get_embedding ef jd = Inr v2
        \<and> cosine_similarity v1 v2 = Inr s
      \<longrightarrow> compute_semantic_similarity ef resume jd
            = Inr (py_round_ndigits (((s + 1) / 2) * 100) 2)"
    by (simp add: compute_semantic_similarity_def semantic_similarity_body_def Let_def)
  have range: "- 1 \<le> s \<and> s \<le> 1
      \<longrightarrow> 0 \<le> py_round_ndigits (((s + 1) / 2) * 100) 2
          \<and> py_round_ndigits (((s + 1) / 2) * 100) 2 \<le> 100"
    using rescale_bounds [of s] by blast
  have failed: "get_embedding ef resume = Inl err \<or> get_embedding ef jd = Inl err
      \<longrightarrow> compute_semantic_similarity ef resume jd = Inr 50"
    by (auto simp: compute_semantic_similarity_def semantic_similarity_body_def
        split: sum.split)
  have mismatch: "get_embedding ef resume = Inr v1 \<and> get_embedding ef jd = Inr v2
        \<and> cosine_similarity v1 v2 = Inl err
      \<longrightarrow> compute_semantic_similarity ef resume jd = Inr 50"
    by (simp add: compute_semantic_similarity_def semantic_similarity_body_def)
  have retried: "(\<forall>n < 3. \<exists>e. ef n (take 10000 resume) = Inl e)
      \<longrightarrow> get_embedding ef resume = Inl CollaboratorError"
    using retry_all_fail [of 3 ef 0 resume] by (simp add: get_embedding_def)
  from returns ok range failed mismatch retried show ?thesis
    by blast
qed

theorem compute_semantic_similarity_degrades_witness:
  "compute_semantic_similarity (\<lambda>n t. Inl ValueError) ''resume'' ''job'' = Inr 50
   \<and> get_embedding (\<lambda>n t. Inr [3, 4]) ''resume'' = Inr [3, 4]
   \<and> get_embedding (\<lambda>n t. Inr [3, 4]) ''job'' = Inr [3, 4]
   \<and> cosine_similarity [3, 4] [3, 4] = Inr 1
   \<and> compute_semantic_similarity (\<lambda>n t. Inr [3, 4]) ''resume'' ''job'' = Inr 100"
proof -
  have fail: "get_embedding (\<lambda>n t. Inl ValueError) ''resume'' = Inl CollaboratorError"
    by (simp add: get_embedding_def numeral_3_eq_3)
  have g1: "get_embedding (\<lambda>n t. Inr [3, 4]) ''resume'' = Inr [3, 4]"
    by (simp add: get_embedding_def numeral_3_eq_3)
  have g2: "get_embedding (\<lambda>n t. Inr [3, 4]) ''job'' = Inr [3, 4]"
    by (simp add: get_embedding_def numeral_3_eq_3)
  have cos: "cosine_similarity [3, 4] [3, 4] = Inr 1"
    by (simp add: cosine_similarity_def np_dot_def np_linalg_norm_def Let_def sqrt_25)
  have top: "py_round_ndigits (((1 + 1) / 2) * 100) 2 = 100"
    by (simp add: py_round_ndigits_def py_round_def)
  from compute_semantic_similarity_degrades
    [of "\<lambda>n t. Inl ValueError" "''resume''" "''job''" "[]" "[]" 0 CollaboratorError] fail
  have a: "compute_semantic_similarity (\<lambda>n t. Inl ValueError) ''resume'' ''job'' = Inr 50"
    by blast
  from compute_semantic_similarity_degrades
    [of "\<lambda>n t. Inr [3, 4]" "''resume''" "''job''" "[3, 4]" "[3, 4]" 1 ValueError] g1 g2 cos
  have "compute_semantic_similarity (\<lambda>n t. Inr [3, 4]) ''resume'' ''job''
      = Inr (py_round_ndigits (((1 + 1) / 2) * 100) 2)"
    by blast
  with a g1 g2 cos top show ?thesis by simp
qed



subsection \<open>Quantification detector\<close>

inductive_cases rx_matches_LitE: "rx_matches (Lit w) s i j"
inductive_cases rx_matches_OneOfE: "rx_matches (OneOf ws) s i j"
inductive_cases rx_matches_PlusE: "rx_matches (Plus c) s i j"
inductive_cases rx_matches_StarE: "rx_matches (Star c) s i j"
inductive_cases rx_matches_CatE: "rx_matches (Cat r1 r2) s i j"
inductive_cases rx_matches_WordBE: "rx_matches WordB s i j"

lemma takeWhile_length_iff:
  "n \<le> length (takeWhile P xs) \<longleftrightarrow> n \<le> length xs \<and> (\<forall>k < n. P (xs ! k))"
proof (induction xs arbitrary: n)
  case Nil
  then show ?case by auto
next
  case (Cons x xs)
  show ?case
  proof (cases n)
    case 0
    then show ?thesis by simp
  next
    case (Suc m)
    show ?thesis
    proof (cases "P x")
      case True
      have "(\<forall>k < Suc m. P ((x # xs) ! k)) \<longleftrightarrow> (\<forall>k < m. P (xs ! k))"
        using True by (auto simp: less_Suc_eq_0_disj)
      with Cons.IH [of m] True Suc show ?thesis by simp
    next
      case False
      then show ?thesis using Suc by auto
    qed
  qed
qed

lemma class_run_iff:
  "n \<le> class_run c s i \<longleftrightarrow> i + n \<le> max i (length s) \<and> (\<forall>k. i \<le> k \<and> k < i + n \<longrightarrow> in_class c (s ! k))"
proof -
  have "(\<forall>k < n. in_class c (drop i s ! k)) \<longleftrightarrow> (\<forall>k. i \<le> k \<and> k < i + n \<longrightarrow> in_class c (s ! k))"
    if "n \<le> length s - i"
  proof
    assume h: "\<forall>k < n. in_class c (drop i s ! k)"
    show "\<forall>k. i \<le> k \<and> k < i + n \<longrightarrow> in_class c (s ! k)"
    proof (intro allI impI)
      fix k assume k: "i \<le> k \<and> k < i + n"
      then have "k - i < n" by linarith
      with h have "in_class c (drop i s ! (k - i))" by blast
      moreover have "i + (k - i) = k" using k by simp
      moreover have "i \<le> length s" using that k by linarith
      ultimately show "in_class c (s ! k)" by (simp add: nth_drop)
    qed
  next
    assume h: "\<forall>k. i \<le> k \<and> k < i + n \<longrightarrow> in_class c (s ! k)"
    show "\<forall>k < n. in_class c (drop i s ! k)"
    proof (intro allI impI)
      fix k assume k: "k < n"
      then have "in_class c (s ! (i + k))" using h by simp
      moreover have "i \<le> length s" using that k by linarith
      ultimately show "in_class c (drop i s ! k)" by (simp add: nth_drop)
    qed
  qed
  moreover have "n \<le> length s - i \<longleftrightarrow> i + n \<le> max i (length s)"
    by auto
  ultimately show ?thesis
    unfolding class_run_def takeWhile_length_iff by auto
qed

lemma shifted_upt_iff:
  "j \<in> set (map (\<lambda>k. i + k) [a ..< b]) \<longleftrightarrow> (\<exists>k. a \<le> k \<and> k < b \<and> j = i + k)"
  by (simp only: set_map set_upt image_iff atLeastLessThan_iff Bex_def) blast

lemma lit_ends_iff:
  "j \<in> set (lit_ends w s i) \<longleftrightarrow>
     j = i + length w \<and> i + length w \<le> length s
     \<and> py_lower (take (length w) (drop i s)) = py_lower w"
  if "i \<le> length s"
proof -
  have "i + length w \<le> length s"
    if eq: "py_lower (take (length w) (drop i s)) = py_lower w"
  proof -
    from eq have "length (py_lower (take (length w) (drop i s))) = length (py_lower w)"
      by simp
    then have "min (length w) (length s - i) = length w"
      by (simp add: py_lower_def)
    with \<open>i \<le> length s\<close> show ?thesis by linarith
  qed
  then show ?thesis
    by (auto simp: lit_ends_def)
qed

lemma rx_ends_bound:
  "i \<le> length s \<Longrightarrow> j \<in> set (rx_ends r s i) \<Longrightarrow> i \<le> j \<and> j \<le> length s"
proof (induction r arbitrary: i j)
  case (Lit w)
  then show ?case by (simp add: lit_ends_iff)
next
  case (OneOf ws)
  then show ?case by (auto simp: lit_ends_iff)
next
  case (Plus c)
  from Plus.prems(2) obtain k where k: "k < Suc (class_run c s i)" "j = i + k"
    by (auto simp only: rx_ends.simps shifted_upt_iff)
  from k(1) have "k \<le> class_run c s i" by simp
  then have "i + k \<le> max i (length s)" by (simp only: class_run_iff)
  with Plus.prems(1) k(2) show ?case by simp
next
  case (Star c)
  from Star.prems(2) obtain k where k: "k < Suc (class_run c s i)" "j = i + k"
    by (auto simp only: rx_ends.simps shifted_upt_iff)
  from k(1) have "k \<le> class_run c s i" by simp
  then have "i + k \<le> max i (length s)" by (simp only: class_run_iff)
  with Star.prems(1) k(2) show ?case by simp
next
  case (Cat r1 r2)
  from Cat.prems(2) obtain k where k: "k \<in> set (rx_ends r1 s i)" "j \<in> set (rx_ends r2 s k)"
    by auto
  from Cat.IH(1) [OF Cat.prems(1) k(1)] have ik: "i \<le> k \<and> k \<le> length s" .
  with Cat.IH(2) [OF _ k(2)] show ?case by simp
next
  case WordB
  then show ?case by (simp split: if_splits)
qed

lemma rx_ends_iff:
  "i \<le> length s \<Longrightarrow> j \<in> set (rx_ends r s i) \<longleftrightarrow> rx_matches r s i j"
proof (induction r arbitrary: i j)
  case (Lit w)
  then show ?case
    by (auto simp: lit_ends_iff intro: match_Lit elim: rx_matches_LitE)
next
  case (OneOf ws)
  then show ?case
    by (auto simp: lit_ends_iff intro: match_Lit match_OneOf
        elim!: rx_matches_OneOfE rx_matches_LitE)
next
  case (Plus c)
  have "j \<in> set (rx_ends (Plus c) s i)
      \<longleftrightarrow> (\<exists>k. 1 \<le> k \<and> k < Suc (class_run c s i) \<and> j = i + k)"
    by (simp only: rx_ends.simps shifted_upt_iff)
  also have "\<dots> \<longleftrightarrow> i < j \<and> j - i \<le> class_run c s i"
    by presburger
  also have "\<dots> \<longleftrightarrow> (i < j \<and> j \<le> length s \<and> (\<forall>k. i \<le> k \<and> k < j \<longrightarrow> in_class c (s ! k)))"
    using class_run_iff [of "j - i" c s i] by (cases "i < j") (simp_all add: max_def)
  also have "\<dots> \<longleftrightarrow> rx_matches (Plus c) s i j"
    by (auto intro: match_Plus elim: rx_matches_PlusE)
  finally show ?case .
next
  case (Star c)
  have "j \<in> set (rx_ends (Star c) s i)
      \<longleftrightarrow> (\<exists>k. 0 \<le> k \<and> k < Suc (class_run c s i) \<and> j = i + k)"
    by (simp only: rx_ends.simps shifted_upt_iff)
  also have "\<dots> \<longleftrightarrow> i \<le> j \<and> j - i \<le> class_run c s i"
    by presburger
  also have "\<dots> \<longleftrightarrow> (i \<le> j \<and> j \<le> length s
      \<and> (\<forall>k. i \<le> k \<and> k < j \<longrightarrow> in_class c (s ! k)))"
    using class_run_iff [of "j - i" c s i] Star.prems
    by (cases "i \<le> j") (simp_all add: max_def)
  also have "\<dots> \<longleftrightarrow> rx_matches (Star c) s i j"
    by (auto intro: match_Star elim: rx_matches_StarE)
  finally show ?case .
next
  case (Cat r1 r2)
  show ?case
  proof
    assume "j \<in> set (rx_ends (Cat r1 r2) s i)"
    then obtain k where k: "k \<in> set (rx_ends r1 s i)" "j \<in> set (rx_ends r2 s k)"
      by auto
    from rx_ends_bound [OF Cat.prems k(1)] have "k \<le> length s" by simp
    with k Cat.IH(1) [OF Cat.prems] Cat.IH(2) show "rx_matches (Cat r1 r2) s i j"
      by (auto intro: match_Cat)
  next
    assume "rx_matches (Cat r1 r2) s i j"
    then obtain k where k: "rx_matches r1 s i k" "rx_matches r2 s k j"
      by (auto elim: rx_matches_CatE)
    from k(1) Cat.IH(1) [OF Cat.prems] have k1: "k \<in> set (rx_ends r1 s i)" by simp
    from rx_ends_bound [OF Cat.prems k1] have "k \<le> length s" by simp
    with k(2) Cat.IH(2) have "j \<in> set (rx_ends r2 s k)" by simp
    with k1 show "j \<in> set (rx_ends (Cat r1 r2) s i)" by auto
  qed
next
  case WordB
  show ?case
    by (auto intro: match_WordB elim: rx_matches_WordBE)
qed

lemma re_search_iff:
  "re_search r s \<longleftrightarrow> (\<exists>i j. i \<le> length s \<and> rx_matches r s i j)"
proof -
  have "re_search r s \<longleftrightarrow> (\<exists>i. i \<le> length s \<and> rx_ends r s i \<noteq> [])"
    by (auto simp del: upt_Suc simp add: re_search_def list_ex_iff less_Suc_eq_le)
  also have "\<dots> \<longleftrightarrow> (\<exists>i j. i \<le> length s \<and> j \<in> set (rx_ends r s i))"
    by (metis empty_iff empty_set ex_in_conv set_empty2)
  also have "\<dots> \<longleftrightarrow> (\<exists>i j. i \<le> length s \<and> rx_matches r s i j)"
    using rx_ends_iff by blast
  finally show ?thesis .
qed

lemma search_loop_iff: "search_loop ps b \<longleftrightarrow> (\<exists>p \<in> set ps. re_search p b)"
  by (induction ps) auto

text \<open>
  C3. The detector is true exactly when one of the nine patterns matches the bullet
  somewhere. It is true on "Increased sales by 25%" and on "Generated $2M in revenue" and
  false on "Helped with various tasks". On "Led team of 5 engineers" it is false: the
  number is followed by none of the listed nouns, magnitudes or units.
\<close>

theorem detect_quantification_on_examples:
  "detect_quantification b
     = (\<exists>p \<in> set patterns. \<exists>i j. i \<le> length b \<and> rx_matches p b i j)
   \<and> detect_quantification ''Increased sales by 25%'' = True
   \<and> detect_quantification ''Generated $2M in revenue'' = True
   \<and> detect_quantification ''Led team of 5 engineers'' = False
   \<and> detect_quantification ''Helped with various tasks'' = False"
proof -
  have general: "detect_quantification b
      = (\<exists>p \<in> set patterns. \<exists>i j. i \<le> length b \<and> rx_matches p b i j)"
    by (simp add: detect_quantification_def search_loop_iff re_search_iff)
  have percent: "detect_quantification ''Increased sales by 25%''"
    by code_simp
  have dollar: "detect_quantification ''Generated $2M in revenue''"
    by code_simp
  have team: "\<not> detect_quantification ''Led team of 5 engineers''"
    by code_simp
  have none: "\<not> detect_quantification ''Helped with various tasks''"
    by code_simp
  from general percent dollar team none show ?thesis
    by simp
qed

theorem detect_quantification_on_examples_witness:
  "\<not> (\<exists>p \<in> set patterns. \<exists>i j. i \<le> length ''Led team of 5 engineers''
        \<and> rx_matches p ''Led team of 5 engineers'' i j)"
proof -
  note examples = detect_quantification_on_examples [of "''Led team of 5 engineers''"]
  from examples have detected:
    "detect_quantification ''Led team of 5 engineers''
     = (\<exists>p \<in> set patterns. \<exists>i j. i \<le> length ''Led team of 5 engineers''
          \<and> rx_matches p ''Led team of 5 engineers'' i j)"
    by (rule conjunct1)
  note matches = detected [symmetric]
  from examples have undetected: "detect_quantification ''Led team of 5 engineers'' = False"
    by blast
  show ?thesis
    by (simp only: matches undetected not_False_eq_True)
qed

subsection \<open>Text normalisation\<close>

lemma normalize_unicode_map: "normalize_unicode s = map normalize_char s"
  by (simp add: normalize_unicode_def replacements_def str_replace_def normalize_char_def)

lemma normalize_char_idem: "normalize_char (normalize_char c) = normalize_char c"
  by (simp add: normalize_char_def)

lemma normalize_char_space: "normalize_char 32 = 32"
  by (simp add: normalize_char_def)

lemma sub_whitespace_runs_set:
  "c \<in> set (sub_whitespace_runs s) \<Longrightarrow> c = 32 \<or> (c \<in> set s \<and> \<not> is_whitespace c)"
proof (induction s rule: sub_whitespace_runs.induct)
  case 1
  then show ?case by simp
next
  case (2 d ds)
  show ?case
  proof (cases "is_whitespace d")
    case True
    with 2 show ?thesis
      by (auto dest: set_dropWhileD)
  next
    case False
    with 2 show ?thesis by auto
  qed
qed

lemma sub_whitespace_runs_hd:
  "s \<noteq> [] \<Longrightarrow> \<not> is_whitespace (hd s)
     \<Longrightarrow> sub_whitespace_runs s \<noteq> [] \<and> hd (sub_whitespace_runs s) = hd s"
  by (cases s) simp_all

lemma dropWhile_hd: "dropWhile P xs = [] \<or> \<not> P (hd (dropWhile P xs))"
  by (metis hd_dropWhile)

lemma dropWhile_id_hd: "xs = [] \<or> \<not> P (hd xs) \<Longrightarrow> dropWhile P xs = xs"
  by (cases xs) auto

lemma sub_whitespace_runs_start:
  "xs = [] \<or> \<not> is_whitespace (hd xs)
     \<Longrightarrow> sub_whitespace_runs xs = [] \<or> \<not> is_whitespace (hd (sub_whitespace_runs xs))"
  by (cases xs) auto

lemma sub_whitespace_runs_separated:
  "successively (\<lambda>a b. \<not> (is_whitespace a \<and> is_whitespace b)) (sub_whitespace_runs s)"
proof (induction s rule: sub_whitespace_runs.induct)
  case 1
  then show ?case by simp
next
  case (2 d ds)
  show ?case
  proof (cases "is_whitespace d")
    case True
    let ?rest = "dropWhile is_whitespace ds"
    have ih: "successively (\<lambda>a b. \<not> (is_whitespace a \<and> is_whitespace b))
        (sub_whitespace_runs ?rest)"
      using 2 True by simp
    have "sub_whitespace_runs ?rest = [] \<or> \<not> is_whitespace (hd (sub_whitespace_runs ?rest))"
      by (rule sub_whitespace_runs_start) (rule dropWhile_hd)
    with ih True show ?thesis
      by (auto simp: successively_Cons)
  next
    case False
    with 2 show ?thesis
      by (auto simp: successively_Cons)
  qed
qed

lemma sub_whitespace_runs_fixed:
  "\<forall>c \<in> set s. is_whitespace c \<longrightarrow> c = 32
     \<Longrightarrow> successively (\<lambda>a b. \<not> (is_whitespace a \<and> is_whitespace b)) s
     \<Longrightarrow> sub_whitespace_runs s = s"
proof (induction s rule: sub_whitespace_runs.induct)
  case 1
  then show ?case by simp
next
  case (2 d ds)
  show ?case
  proof (cases "is_whitespace d")
    case True
    have d: "d = 32" using 2 True by simp
    have sep: "ds = [] \<or> \<not> is_whitespace (hd ds)"
      using "2.prems"(2) True by (auto simp: successively_Cons)
    then have same: "dropWhile is_whitespace ds = ds"
      by (cases ds) auto
    have "sub_whitespace_runs ds = ds"
      using "2.IH"(1) [OF True] "2.prems" same by (auto simp: successively_Cons)
    with True d same show ?thesis by simp
  next
    case False
    have "sub_whitespace_runs ds = ds"
      using "2.IH"(2) [OF False] "2.prems" by (auto simp: successively_Cons)
    with False show ?thesis by simp
  qed
qed

lemma py_strip_prefix_suffix: "\<exists>pre post. s = pre @ py_strip s @ post"
proof -
  let ?d = "dropWhile is_whitespace s"
  have a: "s = takeWhile is_whitespace s @ ?d" by simp
  have "rev (takeWhile is_whitespace (rev ?d) @ dropWhile is_whitespace (rev ?d)) = rev (rev ?d)"
    by (simp only: takeWhile_dropWhile_id)
  then have "rev (dropWhile is_whitespace (rev ?d)) @ rev (takeWhile is_whitespace (rev ?d)) = ?d"
    by (simp only: rev_append rev_rev_ident)
  then have b: "?d = py_strip s @ rev (takeWhile is_whitespace (rev ?d))"
    by (simp only: py_strip_def)
  from a b show ?thesis by metis
qed

lemma py_strip_set: "set (py_strip s) \<subseteq> set s"
  using py_strip_prefix_suffix [of s] by (metis Un_iff set_append subsetI)

lemma py_strip_fixed:
  "(s = [] \<or> (\<not> is_whitespace (hd s) \<and> \<not> is_whitespace (last s))) \<Longrightarrow> py_strip s = s"
proof (cases s)
  case Nil
  then show ?thesis by (simp add: py_strip_def)
next
  case (Cons c cs)
  assume "s = [] \<or> (\<not> is_whitespace (hd s) \<and> \<not> is_whitespace (last s))"
  with Cons have h: "\<not> is_whitespace c" and l: "\<not> is_whitespace (last s)" by auto
  have 1: "dropWhile is_whitespace s = s" using Cons h by simp
  have "hd (rev s) = last s" using Cons by (simp add: hd_rev)
  with l have "rev s = [] \<or> \<not> is_whitespace (hd (rev s))" by simp
  then have 2: "dropWhile is_whitespace (rev s) = rev s"
    by (rule dropWhile_id_hd)
  show ?thesis unfolding py_strip_def 1 2 by simp
qed

lemma py_strip_ends:
  "py_strip s = [] \<or> (\<not> is_whitespace (hd (py_strip s)) \<and> \<not> is_whitespace (last (py_strip s)))"
proof (cases "py_strip s = []")
  case True
  then show ?thesis by simp
next
  case False
  let ?d = "dropWhile is_whitespace s"
  let ?r = "dropWhile is_whitespace (rev ?d)"
  have ps: "py_strip s = rev ?r" by (simp add: py_strip_def)
  with False have rne: "?r \<noteq> []" by simp
  then have "\<not> is_whitespace (hd ?r)" by (metis hd_dropWhile)
  then have lastok: "\<not> is_whitespace (last (py_strip s))"
    using rne by (simp add: ps last_rev)
  have dne: "?d \<noteq> []"
  proof
    assume "?d = []"
    then have "?r = dropWhile is_whitespace (rev [])" by (simp only:)
    with rne show False by simp
  qed
  then have hdd: "\<not> is_whitespace (hd ?d)" by (metis hd_dropWhile)
  have "rev (takeWhile is_whitespace (rev ?d) @ ?r) = rev (rev ?d)"
    by (simp only: takeWhile_dropWhile_id)
  then have "rev ?r @ rev (takeWhile is_whitespace (rev ?d)) = ?d"
    by (simp only: rev_append rev_rev_ident)
  then have "?d = py_strip s @ rev (takeWhile is_whitespace (rev ?d))"
    by (simp only: ps)
  then have "hd ?d = hd (py_strip s)" using False by (metis hd_append2)
  with hdd lastok show ?thesis by simp
qed

lemma sub_newline_runs_fixed: "10 \<notin> set s \<Longrightarrow> sub_newline_runs s = s"
  by (induction s rule: sub_newline_runs.induct) auto

lemma clean_whitespace_set:
  "c \<in> set (clean_whitespace u) \<Longrightarrow> c = 32 \<or> (c \<in> set u \<and> \<not> is_whitespace c)"
  using py_strip_set [of "sub_whitespace_runs u"] sub_whitespace_runs_set [of c u]
  by (auto simp: clean_whitespace_def)

lemma clean_whitespace_no_newline: "10 \<notin> set (clean_whitespace u)"
proof
  assume "10 \<in> set (clean_whitespace u)"
  from clean_whitespace_set [OF this] show False
    by (simp add: is_whitespace_def)
qed

lemma clean_whitespace_separated:
  "successively (\<lambda>a b. \<not> (is_whitespace a \<and> is_whitespace b)) (clean_whitespace u)"
proof -
  from py_strip_prefix_suffix [of "sub_whitespace_runs u"]
  obtain pre post where "sub_whitespace_runs u = pre @ clean_whitespace u @ post"
    by (auto simp: clean_whitespace_def)
  with sub_whitespace_runs_separated [of u] show ?thesis
    by (simp add: successively_append_iff)
qed

lemma clean_whitespace_idem: "clean_whitespace (clean_whitespace u) = clean_whitespace u"
proof -
  let ?t = "clean_whitespace u"
  have spaces: "\<forall>c \<in> set ?t. is_whitespace c \<longrightarrow> c = 32"
    using clean_whitespace_set [of _ u] by blast
  have runs: "sub_whitespace_runs ?t = ?t"
    using spaces clean_whitespace_separated by (rule sub_whitespace_runs_fixed)
  have "py_strip ?t = ?t"
    unfolding clean_whitespace_def
    by (rule py_strip_fixed) (rule py_strip_ends)
  with runs show ?thesis
    by (simp add: clean_whitespace_def [of ?t])
qed

lemma clean_text_eq: "clean_text x = clean_whitespace (normalize_unicode x)"
  by (simp add: clean_text_def Let_def sub_newline_runs_fixed clean_whitespace_no_newline)

lemma normalize_unicode_clean_whitespace:
  "normalize_unicode (clean_whitespace (normalize_unicode x))
     = clean_whitespace (normalize_unicode x)"
proof -
  let ?t = "clean_whitespace (normalize_unicode x)"
  have "\<forall>c \<in> set ?t. normalize_char c = c"
  proof
    fix c assume "c \<in> set ?t"
    from clean_whitespace_set [OF this]
    show "normalize_char c = c"
      by (auto simp: normalize_unicode_map normalize_char_idem normalize_char_space)
  qed
  then show ?thesis
    by (simp add: normalize_unicode_map [of ?t] map_idI)
qed

text \<open>
  C8. Normalising a normalised text changes nothing: for every string,
  \<open>clean_text (clean_text text) = clean_text text\<close>. A text with a leading space, an
  en dash, non-breaking spaces, a run of four newlines and trailing white space
  normalises to the dash and the two letters separated by single spaces.
\<close>

theorem clean_text_idempotent:
  "clean_text (clean_text text) = clean_text text
   \<and> clean_text [32, 8211, 160, 160, 65, 10, 10, 10, 10, 66, 9, 32] = [45, 32, 65, 32, 66]"
proof -
  have idem: "clean_text (clean_text text) = clean_text text"
    by (simp add: clean_text_eq normalize_unicode_clean_whitespace clean_whitespace_idem)
  have sample: "clean_text [32, 8211, 160, 160, 65, 10, 10, 10, 10, 66, 9, 32]
      = [45, 32, 65, 32, 66]"
    by (simp add: clean_text_def normalize_unicode_def replacements_def str_replace_def
        clean_whitespace_def py_strip_def is_whitespace_def)
  from idem sample show ?thesis by simp
qed

end
